theory Spec2Isabelle
  imports Main "HOL-Library.Word"
begin

section \<open>Data model of the HTLC switch (htlcswitch/switch.go)\<close>

type_synonym chan_id = nat
type_synonym hop_id = nat
type_synonym payment_hash = nat
type_synonym amount = int
type_synonym preimage = nat

text \<open>\<open>zeroPreimage\<close>: the all-zero 32 byte array.\<close>

definition zeroPreimage :: preimage where
  "zeroPreimage = 0"

text \<open>The failure codes of \<open>lnwire\<close> that the switch names, and any other code.\<close>

datatype fail_code = UnknownDestination | InsufficientCapacity | UnknownError
  | OtherFailCode nat

text \<open>Every error value the switch builds or hands on.\<close>

datatype error =
    ErrChannelLinkNotFound
  | ErrFailCode fail_code
  | ErrWrongUpdateType
  | ErrWrongTypeOfUpdate
  | ErrSwitchStopped
  | ErrServiceShutdown
  | ErrCloseStopped
  | ErrNoSourceLink chan_id
  | ErrLocateLinks hop_id
  | ErrFindLinks hop_id
  | ErrNoCapacity amount
  | ErrDuplicateCircuit payment_hash
  | ErrCircuitNotFound payment_hash
  | ErrAddCircuit error
  | ErrRemoveCircuit payment_hash
  | ErrSourceForSettle error
  | ErrDecodeFailCode nat error
  | ErrRemovePending payment_hash amount
  | ErrFindPayment payment_hash amount
  | ErrChannelNotFound chan_id
  | ErrLink nat

text \<open>The messages of \<open>lnwire\<close> a packet can carry; the type switches of the source
  have a default branch, so any other message is a value too.\<close>

datatype message =
    UpdateAddHTLC payment_hash amount
  | UpdateFufillHTLC preimage
  | UpdateFailHTLC nat "8 word list"
  | OtherMessage nat

text \<open>Modelled from the spec: the declaration of \<open>htlcPacket\<close> and its constructors
  \<open>newInitPacket\<close> and \<open>newFailPacket\<close> are in a file that is not part of the sources
  at hand. The spec gives the fields source, destination, payment hash, amount and message;
  the field names are those \<open>switch.go\<close> reads.\<close>

record htlcPacket =
  pkt_payHash :: payment_hash
  pkt_dest :: hop_id
  pkt_src :: chan_id
  pkt_amount :: amount
  pkt_htlc :: message

definition localSentinel :: chan_id where
  "localSentinel = 0"

fun msgHash :: "message \<Rightarrow> payment_hash" where
  "msgHash (UpdateAddHTLC h a) = h"
| "msgHash _ = 0"

fun msgAmount :: "message \<Rightarrow> amount" where
  "msgAmount (UpdateAddHTLC h a) = a"
| "msgAmount _ = 0"

definition newInitPacket :: "hop_id \<Rightarrow> message \<Rightarrow> htlcPacket" where
  "newInitPacket hop m =
     \<lparr>pkt_payHash = msgHash m, pkt_dest = hop, pkt_src = localSentinel,
      pkt_amount = msgAmount m, pkt_htlc = m\<rparr>"

definition newFailPacket ::
  "chan_id \<Rightarrow> message \<Rightarrow> payment_hash \<Rightarrow> amount \<Rightarrow> htlcPacket" where
  "newFailPacket sr m h a =
     \<lparr>pkt_payHash = h, pkt_dest = 0, pkt_src = sr, pkt_amount = a, pkt_htlc = m\<rparr>"

text \<open>Modelled from the spec: \<open>paymentCircuit\<close> and the circuit map are declared in a
  file that is not part of the sources at hand. The spec: a circuit is
  \<open>{source_channel, destination_channel, payment_hash}\<close>; the circuit map is a mapping from
  payment hash to the circuit in flight; an insert is rejected as a duplicate if a circuit
  exists for that hash; a remove of an absent hash is an error.\<close>

record paymentCircuit =
  Src :: chan_id
  Dest :: chan_id
  PaymentHash :: payment_hash

type_synonym circuitMap = "payment_hash \<rightharpoonup> paymentCircuit"

definition newPaymentCircuit :: "chan_id \<Rightarrow> chan_id \<Rightarrow> payment_hash \<Rightarrow> paymentCircuit" where
  "newPaymentCircuit sr d h = \<lparr>Src = sr, Dest = d, PaymentHash = h\<rparr>"

definition circuits_add :: "circuitMap \<Rightarrow> paymentCircuit \<Rightarrow> circuitMap \<times> error option" where
  "circuits_add m c =
     (case m (PaymentHash c) of
        Some old \<Rightarrow> (m, Some (ErrDuplicateCircuit (PaymentHash c)))
      | None \<Rightarrow> (m(PaymentHash c \<mapsto> c), None))"

definition circuits_remove ::
  "circuitMap \<Rightarrow> payment_hash \<Rightarrow> circuitMap \<times> (error + paymentCircuit)" where
  "circuits_remove m h =
     (case m h of
        None \<Rightarrow> (m, Inl (ErrCircuitNotFound h))
      | Some c \<Rightarrow> (m(h := None), Inr c))"

text \<open>A channel link is an object behind the \<open>ChannelLink\<close> interface: \<open>linkId\<close> is the
  identity of the object, \<open>ChanID\<close> and \<open>Peer\<close> are what its methods of those names
  report (the hop id of the peer's key).\<close>

record channelLink =
  linkId :: nat
  ChanID :: chan_id
  Peer :: hop_id

text \<open>What the collaborators outside the switch answer when the switch calls them:
  a link's \<open>Bandwidth()\<close> and \<open>Start()\<close>, the byte of a failure code,
  \<open>OpaqueReason.ToFailCode\<close> and \<open>lnwire.NewChanIDFromOutPoint\<close>. \<open>rangeLinks\<close> is
  the order in which a \<open>range\<close> over the map \<open>links\<close> visits its keys, which Go leaves
  open.\<close>

record env =
  Bandwidth :: "channelLink \<Rightarrow> amount"
  LinkStart :: "channelLink \<Rightarrow> error option"
  codeByte :: "fail_code \<Rightarrow> 8 word"
  ToFailCode :: "8 word list \<Rightarrow> error + fail_code"
  NewChanIDFromOutPoint :: "nat \<Rightarrow> chan_id"
  rangeLinks :: "(chan_id \<rightharpoonup> channelLink) \<Rightarrow> chan_id list"

text \<open>A pending payment; \<open>pp_id\<close> names its pair of channels \<open>err\<close> and \<open>preimage\<close>.\<close>

record pendingPayment =
  pp_paymentHash :: payment_hash
  pp_amount :: amount
  pp_id :: nat

datatype close_type = CloseRegular | CloseBreach

text \<open>What the switch does to the world outside its maps, in program order.\<close>

datatype event =
    Offer channelLink htlcPacket
  | AsyncOffer channelLink htlcPacket
  | LinkStop channelLink
  | SlotErr nat "error option"
  | SlotPreimage nat preimage
  | CloseCallback hop_id close_type nat
  | CloseErr error
  | LoopSpawned
  | QuitClosed

record switch =
  started :: bool
  shutdown :: bool
  quit :: bool
  running :: bool
  pendingPayments :: "payment_hash \<rightharpoonup> pendingPayment list"
  circuits :: circuitMap
  links :: "chan_id \<rightharpoonup> channelLink"
  linksIndex :: "hop_id \<rightharpoonup> channelLink list"
  trace :: "event list"

definition New :: switch where
  "New = \<lparr>started = False, shutdown = False, quit = False, running = False,
          pendingPayments = Map.empty, circuits = Map.empty, links = Map.empty,
          linksIndex = Map.empty, trace = []\<rparr>"

definition emit :: "event \<Rightarrow> switch \<Rightarrow> switch" where
  "emit e s = s\<lparr>trace := trace s @ [e]\<rparr>"

section \<open>Link registry\<close>

definition slice_of :: "'a list option \<Rightarrow> 'a list" where
  "slice_of v = (case v of None \<Rightarrow> [] | Some xs \<Rightarrow> xs)"

fun first_index :: "('a \<Rightarrow> bool) \<Rightarrow> 'a list \<Rightarrow> nat option" where
  "first_index P [] = None"
| "first_index P (x # xs) =
     (if P x then Some 0 else map_option Suc (first_index P xs))"

text \<open>\<open>xs[i] = xs[len-1]; xs = xs[:len-1]\<close>\<close>

definition swap_remove :: "'a list \<Rightarrow> nat \<Rightarrow> 'a list" where
  "swap_remove xs i = butlast (xs[i := last xs])"

definition addLink :: "env \<Rightarrow> switch \<Rightarrow> channelLink \<Rightarrow> switch \<times> error option" where
  "addLink ev s link =
     (case LinkStart ev link of
        Some err \<Rightarrow> (s, Some err)
      | None \<Rightarrow>
          (let s1 = s\<lparr>links := (links s)(ChanID link \<mapsto> link)\<rparr>;
               hop = Peer link
           in (s1\<lparr>linksIndex :=
                     (linksIndex s1)(hop \<mapsto> slice_of (linksIndex s1 hop) @ [link])\<rparr>,
               None)))"

definition getLink :: "switch \<Rightarrow> chan_id \<Rightarrow> error + channelLink" where
  "getLink s c = (case links s c of None \<Rightarrow> Inl ErrChannelLinkNotFound | Some l \<Rightarrow> Inr l)"

definition getLinks :: "switch \<Rightarrow> hop_id \<Rightarrow> error + channelLink list" where
  "getLinks s h = (case linksIndex s h of None \<Rightarrow> Inl (ErrLocateLinks h) | Some ls \<Rightarrow> Inr ls)"

definition removeLink :: "switch \<Rightarrow> chan_id \<Rightarrow> switch \<times> error option" where
  "removeLink s c =
     (case links s c of
        None \<Rightarrow> (s, Some ErrChannelLinkNotFound)
      | Some link \<Rightarrow>
          (let s1 = s\<lparr>links := (links s)(ChanID link := None)\<rparr>;
               hop = Peer link;
               ls = slice_of (linksIndex s1 hop);
               s2 = (case first_index (\<lambda>l. ChanID l = ChanID link) ls of
                       None \<Rightarrow> s1
                     | Some i \<Rightarrow>
                         (let ls' = swap_remove ls i
                          in if ls' = []
                             then s1\<lparr>linksIndex := (linksIndex s1)(hop := None)\<rparr>
                             else s1\<lparr>linksIndex := (linksIndex s1)(hop \<mapsto> ls')\<rparr>))
           in (emit (LinkStop link) s2, None)))"

section \<open>Pending payments\<close>

definition removePendingPayment ::
  "switch \<Rightarrow> amount \<Rightarrow> payment_hash \<Rightarrow> switch \<times> error option" where
  "removePendingPayment s a h =
     (case pendingPayments s h of
        None \<Rightarrow> (s, Some (ErrRemovePending h a))
      | Some payments \<Rightarrow>
          (case first_index (\<lambda>p. pp_amount p = a) payments of
             None \<Rightarrow> (s, Some (ErrRemovePending h a))
           | Some i \<Rightarrow>
               (let ps' = swap_remove payments i
                in (if ps' = []
                    then s\<lparr>pendingPayments := (pendingPayments s)(h := None)\<rparr>
                    else s\<lparr>pendingPayments := (pendingPayments s)(h \<mapsto> ps')\<rparr>,
                    None))))"

definition findPayment :: "switch \<Rightarrow> amount \<Rightarrow> payment_hash \<Rightarrow> error + pendingPayment" where
  "findPayment s a h =
     (case pendingPayments s h of
        None \<Rightarrow> Inl (ErrFindPayment h a)
      | Some payments \<Rightarrow>
          (case find (\<lambda>p. pp_amount p = a) payments of
             None \<Rightarrow> Inl (ErrFindPayment h a)
           | Some p \<Rightarrow> Inr p))"

section \<open>The two handlers of a forward command\<close>

text \<open>The loop \<open>for _, link := range links\<close> that keeps the first link whose bandwidth
  covers the amount.\<close>

definition pickLink :: "env \<Rightarrow> channelLink list \<Rightarrow> amount \<Rightarrow> channelLink option" where
  "pickLink ev ls a = find (\<lambda>l. a \<le> Bandwidth ev l) ls"

definition handleLocalDispatch ::
  "env \<Rightarrow> switch \<Rightarrow> pendingPayment \<Rightarrow> htlcPacket \<Rightarrow> switch \<times> error option" where
  "handleLocalDispatch ev s payment packet =
     (case pkt_htlc packet of
        UpdateAddHTLC h a \<Rightarrow>
          (case getLinks s (pkt_dest packet) of
             Inl e \<Rightarrow> (s, Some (ErrFailCode UnknownDestination))
           | Inr ls \<Rightarrow>
               (case pickLink ev ls a of
                  None \<Rightarrow> (s, Some (ErrFailCode InsufficientCapacity))
                | Some destination \<Rightarrow> (emit (Offer destination packet) s, None)))
      | UpdateFufillHTLC p \<Rightarrow>
          (let s1 = emit (SlotErr (pp_id payment) None) s;
               s2 = emit (SlotPreimage (pp_id payment) p) s1
           in (fst (removePendingPayment s2 (pp_amount payment) (pp_paymentHash payment)),
               None))
      | UpdateFailHTLC i reason \<Rightarrow>
          (let userErr = (case ToFailCode ev reason of
                            Inl e \<Rightarrow> ErrDecodeFailCode i e
                          | Inr code \<Rightarrow> ErrFailCode code);
               s1 = emit (SlotErr (pp_id payment) (Some userErr)) s;
               s2 = emit (SlotPreimage (pp_id payment) zeroPreimage) s1
           in (fst (removePendingPayment s2 (pp_amount payment) (pp_paymentHash payment)),
               None))
      | OtherMessage n \<Rightarrow> (s, Some ErrWrongUpdateType))"

text \<open>The Fail packet that \<open>handlePacketForward\<close> builds for the source link in each of
  its three failure branches.\<close>

definition failBack :: "env \<Rightarrow> htlcPacket \<Rightarrow> payment_hash \<Rightarrow> fail_code \<Rightarrow> htlcPacket" where
  "failBack ev packet h code =
     newFailPacket (pkt_src packet) (UpdateFailHTLC 0 [codeByte ev code]) h 0"

text \<open>The branch \<open>case *lnwire.UpdateAddHTLC\<close> of \<open>handlePacketForward\<close>.\<close>

definition forwardAdd ::
  "env \<Rightarrow> switch \<Rightarrow> htlcPacket \<Rightarrow> payment_hash \<Rightarrow> amount \<Rightarrow> switch \<times> error option" where
  "forwardAdd ev s packet h a =
     (case getLink s (pkt_src packet) of
        Inl e \<Rightarrow> (s, Some (ErrNoSourceLink (pkt_src packet)))
      | Inr source \<Rightarrow>
          (case getLinks s (pkt_dest packet) of
             Inl e \<Rightarrow>
               (emit (AsyncOffer source (failBack ev packet h UnknownDestination)) s,
                Some (ErrFindLinks (pkt_dest packet)))
           | Inr ls \<Rightarrow>
               (case pickLink ev ls a of
                  None \<Rightarrow>
                    (emit (AsyncOffer source (failBack ev packet h InsufficientCapacity)) s,
                     Some (ErrNoCapacity a))
                | Some destination \<Rightarrow>
                    (case circuits_add (circuits s)
                            (newPaymentCircuit (ChanID source) (ChanID destination) h) of
                       (m, Some e) \<Rightarrow>
                         (emit (AsyncOffer source (failBack ev packet h UnknownError))
                            (s\<lparr>circuits := m\<rparr>),
                          Some (ErrAddCircuit e))
                     | (m, None) \<Rightarrow>
                         (emit (Offer destination packet) (s\<lparr>circuits := m\<rparr>), None)))))"

text \<open>The branch \<open>case *lnwire.UpdateFufillHTLC, *lnwire.UpdateFailHTLC\<close> of
  \<open>handlePacketForward\<close>.\<close>

definition forwardSettleFail :: "switch \<Rightarrow> htlcPacket \<Rightarrow> switch \<times> error option" where
  "forwardSettleFail s packet =
     (case circuits_remove (circuits s) (pkt_payHash packet) of
        (m, Inl e) \<Rightarrow> (s\<lparr>circuits := m\<rparr>, Some (ErrRemoveCircuit (pkt_payHash packet)))
      | (m, Inr circuit) \<Rightarrow>
          (let s1 = s\<lparr>circuits := m\<rparr>
           in (case getLink s1 (Src circuit) of
                 Inl e \<Rightarrow> (s1, Some (ErrSourceForSettle e))
               | Inr source \<Rightarrow> (emit (Offer source packet) s1, None))))"

definition handlePacketForward :: "env \<Rightarrow> switch \<Rightarrow> htlcPacket \<Rightarrow> switch \<times> error option" where
  "handlePacketForward ev s packet =
     (case pkt_htlc packet of
        UpdateAddHTLC h a \<Rightarrow> forwardAdd ev s packet h a
      | UpdateFufillHTLC p \<Rightarrow> forwardSettleFail s packet
      | UpdateFailHTLC i reason \<Rightarrow> forwardSettleFail s packet
      | OtherMessage n \<Rightarrow> (s, Some ErrWrongUpdateType))"

section \<open>The dispatch loop\<close>

text \<open>What the \<open>select\<close> of \<open>htlcForwarder\<close> can receive.\<close>

datatype command =
    ChanCloseReq close_type nat
  | ForwardCmd htlcPacket
  | LogTick
  | AddLinkCmd channelLink
  | RemoveLinkCmd chan_id
  | GetLinkCmd chan_id
  | GetLinksCmd hop_id
  | QuitSignal

text \<open>What the loop writes to the reply channels of a command.\<close>

datatype reply =
    NoReply
  | ReplyErr "error option"
  | ReplyLink "error + channelLink"
  | ReplyLinks "error + channelLink list"

definition handleChanelClose :: "env \<Rightarrow> switch \<Rightarrow> close_type \<Rightarrow> nat \<Rightarrow> switch" where
  "handleChanelClose ev s t outpoint =
     (let chanID = NewChanIDFromOutPoint ev outpoint;
          link = fold (\<lambda>k found. case links s k of
                                    None \<Rightarrow> found
                                  | Some l \<Rightarrow> if ChanID l = chanID then Some l else found)
                      (rangeLinks ev (links s)) None
      in case link of
           None \<Rightarrow> emit (CloseErr (ErrChannelNotFound chanID)) s
         | Some l \<Rightarrow> emit (CloseCallback (Peer l) t outpoint) s)"

text \<open>The deferred function of \<open>htlcForwarder\<close>: it removes every link, then the loop's
  goroutine is gone.\<close>

definition removeAllLinks :: "env \<Rightarrow> switch \<Rightarrow> switch" where
  "removeAllLinks ev s =
     fold (\<lambda>k s'. case links s' k of
                     None \<Rightarrow> s'
                   | Some link \<Rightarrow> fst (removeLink s' (ChanID link)))
          (rangeLinks ev (links s)) s"

definition forwarderReturn :: "env \<Rightarrow> switch \<Rightarrow> switch" where
  "forwarderReturn ev s = (removeAllLinks ev s)\<lparr>running := False\<rparr>"

text \<open>The type switch at the head of the case \<open>cmd := <-s.forwardCommands\<close>: the payment
  hash and the amount the pending payment is looked up with, \<open>None\<close> in its default
  branch.\<close>

definition paymentKey :: "htlcPacket \<Rightarrow> (payment_hash \<times> amount) option" where
  "paymentKey pkt =
     (case pkt_htlc pkt of
        UpdateAddHTLC h a \<Rightarrow> Some (h, a)
      | UpdateFufillHTLC p \<Rightarrow> Some (pkt_payHash pkt, pkt_amount pkt)
      | UpdateFailHTLC i r \<Rightarrow> Some (pkt_payHash pkt, pkt_amount pkt)
      | OtherMessage n \<Rightarrow> None)"

text \<open>One turn of the \<open>for { select { ... } }\<close> of \<open>htlcForwarder\<close> on the command
  received. The totals of the log ticker are local to the loop and only logged.\<close>

definition forwarderStep :: "env \<Rightarrow> switch \<Rightarrow> command \<Rightarrow> switch \<times> reply" where
  "forwarderStep ev s cmd =
     (case cmd of
        ChanCloseReq t outpoint \<Rightarrow> (handleChanelClose ev s t outpoint, NoReply)
      | ForwardCmd pkt \<Rightarrow>
          (case paymentKey pkt of
             None \<Rightarrow> (forwarderReturn ev s, ReplyErr (Some ErrWrongTypeOfUpdate))
           | Some (paymentHash, amt) \<Rightarrow>
               (case findPayment s amt paymentHash of
                  Inl e \<Rightarrow>
                    (let (s', r) = handlePacketForward ev s pkt in (s', ReplyErr r))
                | Inr payment \<Rightarrow>
                    (let (s', r) = handleLocalDispatch ev s payment pkt in (s', ReplyErr r))))
      | LogTick \<Rightarrow> (s, NoReply)
      | AddLinkCmd link \<Rightarrow> (let (s', r) = addLink ev s link in (s', ReplyErr r))
      | RemoveLinkCmd c \<Rightarrow> (let (s', r) = removeLink s c in (s', ReplyErr r))
      | GetLinkCmd c \<Rightarrow> (s, ReplyLink (getLink s c))
      | GetLinksCmd h \<Rightarrow> (s, ReplyLinks (getLinks s h))
      | QuitSignal \<Rightarrow> (forwarderReturn ev s, NoReply))"

text \<open>The loop on the commands it receives, in the order it receives them: it serves
  commands while it runs, and what is left once it has returned is never served.\<close>

fun htlcForwarder :: "env \<Rightarrow> switch \<Rightarrow> command list \<Rightarrow> switch \<times> reply list \<times> command list" where
  "htlcForwarder ev s [] = (s, [], [])"
| "htlcForwarder ev s (cmd # rest) =
     (if \<not> running s then (s, [], cmd # rest)
      else (let (s1, r) = forwarderStep ev s cmd;
                (s2, rs, unserved) = htlcForwarder ev s1 rest
            in (s2, r # rs, unserved)))"

section \<open>Start and Stop\<close>


text \<open>\<open>Stop\<close>: the compare-and-swap on \<open>shutdown\<close>, \<open>close(s.quit)\<close>, then
  \<open>s.wg.Wait()\<close>, which returns once the loop, if there is one, has taken the case
  \<open><-s.quit\<close> and returned.\<close>

definition Stop :: "env \<Rightarrow> switch \<Rightarrow> switch" where
  "Stop ev s =
     (if shutdown s then s
      else (let s1 = emit QuitClosed (s\<lparr>shutdown := True, quit := True\<rparr>)
            in if running s1 then fst (forwarderStep ev s1 QuitSignal) else s1))"

section \<open>The public facade\<close>

text \<open>The \<open>select\<close> of a facade function between the send of its command and
  \<open><-s.quit\<close>. The send is ready when the loop runs, the quit case when \<open>quit\<close> is
  closed; \<open>pick\<close> is the choice Go makes when both are ready. \<open>None\<close>: neither is
  ready and the caller stays blocked.\<close>

datatype submitted = Sent | Stopped

definition submit :: "switch \<Rightarrow> bool \<Rightarrow> submitted option" where
  "submit s pick =
     (if running s \<and> (\<not> quit s \<or> pick) then Some Sent
      else if quit s then Some Stopped
      else None)"


definition AddLink :: "env \<Rightarrow> switch \<Rightarrow> bool \<Rightarrow> channelLink \<Rightarrow> (switch \<times> error option) option" where
  "AddLink ev s pick link =
     (case submit s pick of
        None \<Rightarrow> None
      | Some Stopped \<Rightarrow> Some (s, Some ErrSwitchStopped)
      | Some Sent \<Rightarrow>
          (case forwarderStep ev s (AddLinkCmd link) of
             (s', ReplyErr r) \<Rightarrow> Some (s', r)
           | (s', other) \<Rightarrow> None))"





section \<open>SendHTLC\<close>

text \<open>What the other goroutines do while \<open>SendHTLC\<close> waits: the loop serves a command,
  or somebody calls \<open>Stop\<close>.\<close>

datatype activity = LoopServes command | StopCalled

fun others :: "env \<Rightarrow> switch \<Rightarrow> activity list \<Rightarrow> switch" where
  "others ev s [] = s"
| "others ev s (LoopServes cmd # rest) =
     others ev (if running s then fst (forwarderStep ev s cmd) else s) rest"
| "others ev s (StopCalled # rest) = others ev (Stop ev s) rest"

text \<open>The contents of the channels \<open>err\<close> and \<open>preimage\<close> of the pending payment
  \<open>pid\<close>: what has been written to them, oldest first.\<close>

definition errChan :: "nat \<Rightarrow> event list \<Rightarrow> error option list" where
  "errChan pid tr =
     concat (map (\<lambda>e. case e of SlotErr p v \<Rightarrow> if p = pid then [v] else [] | _ \<Rightarrow> []) tr)"

definition preimageChan :: "nat \<Rightarrow> event list \<Rightarrow> preimage list" where
  "preimageChan pid tr =
     concat (map (\<lambda>e. case e of SlotPreimage p v \<Rightarrow> if p = pid then [v] else [] | _ \<Rightarrow> []) tr)"

text \<open>A \<open>select\<close> between a receive from a channel and \<open><-s.quit\<close>; \<open>pickQuit\<close> is
  Go's choice when both are ready, \<open>None\<close> is a caller that stays blocked.\<close>

datatype 'a selected = Received 'a | QuitCase

definition recvOrQuit :: "'a list \<Rightarrow> bool \<Rightarrow> bool \<Rightarrow> 'a selected option" where
  "recvOrQuit buf q pickQuit =
     (case buf of
        [] \<Rightarrow> if q then Some QuitCase else None
      | v # rest \<Rightarrow> if q \<and> pickQuit then Some QuitCase else Some (Received v))"

text \<open>The interleaving of one call of \<open>SendHTLC\<close> with the rest of the program.\<close>

record schedule =
  pickForward :: bool
  beforeErr :: "activity list"
  quitBeatsErr :: bool
  beforePreimage :: "activity list"
  quitBeatsPreimage :: bool

text \<open>The two \<open>select\<close> statements at the end of \<open>SendHTLC\<close>: first the channel
  \<open>err\<close>, then the channel \<open>preimage\<close>, each against \<open>quit\<close>.\<close>

definition awaitResult ::
  "env \<Rightarrow> switch \<Rightarrow> schedule \<Rightarrow> nat \<Rightarrow> (switch \<times> preimage \<times> error option) option" where
  "awaitResult ev s sch pid =
     (let s3 = others ev s (beforeErr sch)
      in case recvOrQuit (errChan pid (trace s3)) (quit s3) (quitBeatsErr sch) of
           None \<Rightarrow> None
         | Some QuitCase \<Rightarrow> Some (s3, zeroPreimage, Some ErrServiceShutdown)
         | Some (Received e) \<Rightarrow>
             (let s4 = others ev s3 (beforePreimage sch)
              in case recvOrQuit (preimageChan pid (trace s4)) (quit s4)
                        (quitBeatsPreimage sch) of
                   None \<Rightarrow> None
                 | Some QuitCase \<Rightarrow> Some (s4, zeroPreimage, Some ErrServiceShutdown)
                 | Some (Received p) \<Rightarrow> Some (s4, p, e)))"

text \<open>The pending payment \<open>SendHTLC\<close> builds and the table after its insert.\<close>

definition newPayment :: "nat \<Rightarrow> payment_hash \<Rightarrow> amount \<Rightarrow> pendingPayment" where
  "newPayment pid h a = \<lparr>pp_paymentHash = h, pp_amount = a, pp_id = pid\<rparr>"

definition insertPayment :: "switch \<Rightarrow> pendingPayment \<Rightarrow> switch" where
  "insertPayment s payment =
     s\<lparr>pendingPayments :=
         (pendingPayments s)(pp_paymentHash payment \<mapsto>
            slice_of (pendingPayments s (pp_paymentHash payment)) @ [payment])\<rparr>"


section \<open>Sequences of registry operations and the registry invariant\<close>

datatype link_op = OpAdd channelLink | OpRemove chan_id

fun apply_link_op :: "env \<Rightarrow> switch \<Rightarrow> link_op \<Rightarrow> switch" where
  "apply_link_op ev s (OpAdd link) = fst (addLink ev s link)"
| "apply_link_op ev s (OpRemove c) = fst (removeLink s c)"

text \<open>The states after each step of a sequence of operations.\<close>

fun states_after :: "env \<Rightarrow> switch \<Rightarrow> link_op list \<Rightarrow> switch list" where
  "states_after ev s [] = []"
| "states_after ev s (x # xs) = apply_link_op ev s x # states_after ev (apply_link_op ev s x) xs"

text \<open>Every link added starts and reports a channel id that no registered link has.\<close>

fun fresh_adds :: "env \<Rightarrow> switch \<Rightarrow> link_op list \<Rightarrow> bool" where
  "fresh_adds ev s [] = True"
| "fresh_adds ev s (OpAdd link # xs) =
     (LinkStart ev link = None \<and> links s (ChanID link) = None \<and>
      fresh_adds ev (fst (addLink ev s link)) xs)"
| "fresh_adds ev s (OpRemove c # xs) = fresh_adds ev (fst (removeLink s c)) xs"

text \<open>The two link maps agree: an entry of \<open>links\<close> is under its own channel id and is
  exactly once in the list of its peer; a list of \<open>linksIndex\<close> is not empty and each of
  its entries is of that peer, is the entry of \<open>links\<close> under its channel id and is in the
  list exactly once.\<close>

definition registry_inv :: "switch \<Rightarrow> bool" where
  "registry_inv s \<longleftrightarrow>
     (\<forall>c l. links s c = Some l \<longrightarrow>
        ChanID l = c \<and> (\<exists>ls. linksIndex s (Peer l) = Some ls \<and> count_list ls l = 1)) \<and>
     (\<forall>h ls. linksIndex s h = Some ls \<longrightarrow>
        ls \<noteq> [] \<and>
        (\<forall>l\<in>set ls. Peer l = h \<and> links s (ChanID l) = Some l \<and> count_list ls l = 1))"

text \<open>The same with membership in a list without repetition.\<close>

definition reg_inv :: "switch \<Rightarrow> bool" where
  "reg_inv s \<longleftrightarrow>
     (\<forall>c l. links s c = Some l \<longrightarrow>
        ChanID l = c \<and> (\<exists>ls. linksIndex s (Peer l) = Some ls \<and> l \<in> set ls)) \<and>
     (\<forall>h ls. linksIndex s h = Some ls \<longrightarrow>
        ls \<noteq> [] \<and> distinct ls \<and> (\<forall>l\<in>set ls. Peer l = h \<and> links s (ChanID l) = Some l))"

section \<open>Commands that resolve a circuit\<close>


section \<open>Concrete collaborators and links for the examples\<close>

definition ev0 :: env where
  "ev0 = \<lparr>Bandwidth = (\<lambda>l. if linkId l = 2 then 10 else 100), LinkStart = (\<lambda>l. None),
          codeByte = (\<lambda>c. case c of InsufficientCapacity \<Rightarrow> 0 | UnknownDestination \<Rightarrow> 3
                         | UnknownError \<Rightarrow> 6 | OtherFailCode n \<Rightarrow> of_nat n),
          ToFailCode = (\<lambda>r. case r of [] \<Rightarrow> Inl (ErrLink 0)
                            | b # bs \<Rightarrow> if b = 0 then Inr InsufficientCapacity
                                         else if b = 3 then Inr UnknownDestination
                                         else if b = 6 then Inr UnknownError
                                         else Inl (ErrLink 1)),
          NewChanIDFromOutPoint = (\<lambda>n. n),
          rangeLinks = (\<lambda>m. filter (\<lambda>k. m k \<noteq> None) [0..<8])\<rparr>"

definition linkA :: channelLink where
  "linkA = \<lparr>linkId = 1, ChanID = 1, Peer = 7\<rparr>"

definition linkB :: channelLink where
  "linkB = \<lparr>linkId = 2, ChanID = 2, Peer = 8\<rparr>"

definition linkC :: channelLink where
  "linkC = \<lparr>linkId = 3, ChanID = 3, Peer = 8\<rparr>"

text \<open>A second link object that reports the channel id of \<open>linkA\<close>.\<close>

definition linkA' :: channelLink where
  "linkA' = \<lparr>linkId = 4, ChanID = 1, Peer = 7\<rparr>"

text \<open>The started switch with \<open>linkA\<close>, \<open>linkB\<close> and \<open>linkC\<close> registered.\<close>

definition sw3 :: switch where
  "sw3 = New\<lparr>started := True, running := True,
             links := [1 \<mapsto> linkA, 2 \<mapsto> linkB, 3 \<mapsto> linkC],
             linksIndex := [7 \<mapsto> [linkA], 8 \<mapsto> [linkB, linkC]]\<rparr>"

text \<open>\<open>sw3\<close> with the circuit of a payment \<open>170\<close> forwarded from \<open>linkA\<close> to \<open>linkC\<close>.\<close>

definition sw3c :: switch where
  "sw3c = sw3\<lparr>circuits := [170 \<mapsto> \<lparr>Src = 1, Dest = 3, PaymentHash = 170\<rparr>]\<rparr>"

definition addPkt :: "hop_id \<Rightarrow> amount \<Rightarrow> htlcPacket" where
  "addPkt d a = \<lparr>pkt_payHash = 0, pkt_dest = d, pkt_src = 1, pkt_amount = 0,
                  pkt_htlc = UpdateAddHTLC 170 a\<rparr>"

definition settlePkt :: htlcPacket where
  "settlePkt = \<lparr>pkt_payHash = 170, pkt_dest = 0, pkt_src = 3, pkt_amount = 50,
                 pkt_htlc = UpdateFufillHTLC 187\<rparr>"

text \<open>\<open>sw3\<close> with the pending payment of a local send of 30 for the hash 2, and the Settle
  and the Fail that come back for it.\<close>

definition swp :: switch where
  "swp = sw3\<lparr>pendingPayments := [2 \<mapsto> [newPayment 5 2 30]]\<rparr>"

definition localSettle :: htlcPacket where
  "localSettle = \<lparr>pkt_payHash = 2, pkt_dest = 0, pkt_src = 2, pkt_amount = 30,
                   pkt_htlc = UpdateFufillHTLC 187\<rparr>"

definition localFail :: htlcPacket where
  "localFail = \<lparr>pkt_payHash = 2, pkt_dest = 0, pkt_src = 2, pkt_amount = 30,
                 pkt_htlc = UpdateFailHTLC 0 [3]\<rparr>"

text \<open>The schedule in which nothing else happens while \<open>SendHTLC\<close> waits.\<close>

definition idle :: schedule where
  "idle = \<lparr>pickForward = True, beforeErr = [], quitBeatsErr = False,
           beforePreimage = [], quitBeatsPreimage = False\<rparr>"



text \<open>A forward command whose packet carries a message that is neither an Add, a Settle
  nor a Fail.\<close>

definition otherPkt :: htlcPacket where
  "otherPkt = \<lparr>pkt_payHash = 4, pkt_dest = 8, pkt_src = 1, pkt_amount = 5,
                pkt_htlc = OtherMessage 0\<rparr>"


section \<open>The link registry keeps its invariant\<close>

lemma first_index_Some:
  "first_index P xs = Some i \<Longrightarrow> i < length xs \<and> P (xs ! i)"
  by (induction xs arbitrary: i) (auto split: if_splits)

lemma first_index_None: "first_index P xs = None \<longleftrightarrow> (\<forall>x\<in>set xs. \<not> P x)"
  by (induction xs) auto

lemma swap_remove_snoc_last: "swap_remove (ys @ [z]) (length ys) = ys"
  by (simp add: swap_remove_def)

lemma swap_remove_snoc_inner: "i < length ys \<Longrightarrow> swap_remove (ys @ [z]) i = ys[i := z]"
  by (simp add: swap_remove_def list_update_append)

lemma set_swap_remove:
  assumes "distinct xs" "i < length xs"
  shows "set (swap_remove xs i) = set xs - {xs ! i}"
proof -
  from assms obtain ys z where xs: "xs = ys @ [z]"
    by (cases xs rule: rev_cases) auto
  show ?thesis
  proof (cases "i = length ys")
    case True
    with assms xs show ?thesis by (auto simp: swap_remove_snoc_last)
  next
    case False
    with assms xs have i: "i < length ys" by simp
    have "set (ys[i := z]) = insert z (set ys - {ys ! i})"
      using assms xs i by (simp add: set_update_distinct)
    with assms xs i show ?thesis
      by (auto simp: swap_remove_snoc_inner nth_append)
  qed
qed

lemma distinct_swap_remove:
  assumes "distinct xs" "i < length xs"
  shows "distinct (swap_remove xs i)"
proof -
  from assms obtain ys z where xs: "xs = ys @ [z]"
    by (cases xs rule: rev_cases) auto
  show ?thesis
  proof (cases "i = length ys")
    case True
    with assms xs show ?thesis by (auto simp: swap_remove_snoc_last)
  next
    case False
    with assms xs have i: "i < length ys" by simp
    with assms xs show ?thesis
      by (auto simp: swap_remove_snoc_inner distinct_list_update)
  qed
qed

lemma count_list_1_distinct: "(\<forall>l\<in>set ls. count_list ls l = 1) \<Longrightarrow> distinct ls"
  by (induction ls) (auto simp: count_list_0_iff split: if_splits)

lemma count_list_1_mem: "distinct ls \<Longrightarrow> l \<in> set ls \<Longrightarrow> count_list ls l = Suc 0"
  by (induction ls) (auto simp: count_list_0_iff)

lemma count_list_1_in: "count_list ls l = 1 \<Longrightarrow> l \<in> set ls"
  by (metis count_list_0_iff zero_neq_one)

lemma registry_inv_reg_inv:
  assumes r: "registry_inv s"
  shows "reg_inv s"
  unfolding reg_inv_def
proof (intro conjI allI impI)
  fix c l assume a: "links s c = Some l"
  from r a show "ChanID l = c" by (simp add: registry_inv_def)
  from r a obtain ls where "linksIndex s (Peer l) = Some ls" "count_list ls l = 1"
    unfolding registry_inv_def by fast
  then show "\<exists>ls. linksIndex s (Peer l) = Some ls \<and> l \<in> set ls"
    using count_list_1_in by fast
next
  fix h ls assume a: "linksIndex s h = Some ls"
  from r a have n: "ls \<noteq> []"
    and e: "\<forall>l\<in>set ls. Peer l = h \<and> links s (ChanID l) = Some l \<and> count_list ls l = 1"
    unfolding registry_inv_def by fast+
  show "ls \<noteq> []" by (rule n)
  show "distinct ls" using e by (intro count_list_1_distinct) simp
  show "\<forall>l\<in>set ls. Peer l = h \<and> links s (ChanID l) = Some l" using e by simp
qed

lemma reg_inv_registry_inv:
  assumes r: "reg_inv s"
  shows "registry_inv s"
  unfolding registry_inv_def
proof (intro conjI allI impI)
  fix c l assume a: "links s c = Some l"
  from r a show "ChanID l = c" by (simp add: reg_inv_def)
  from r a obtain ls where ls: "linksIndex s (Peer l) = Some ls" "l \<in> set ls"
    unfolding reg_inv_def by fast
  with r have "distinct ls" unfolding reg_inv_def by fast
  with ls show "\<exists>ls. linksIndex s (Peer l) = Some ls \<and> count_list ls l = 1"
    by (simp add: count_list_1_mem)
next
  fix h ls assume a: "linksIndex s h = Some ls"
  from r a have n: "ls \<noteq> []" and d: "distinct ls"
    and e: "\<forall>l\<in>set ls. Peer l = h \<and> links s (ChanID l) = Some l"
    unfolding reg_inv_def by fast+
  show "ls \<noteq> []" by (rule n)
  show "\<forall>l\<in>set ls. Peer l = h \<and> links s (ChanID l) = Some l \<and> count_list ls l = 1"
    using e d by (simp add: count_list_1_mem)
qed

lemma reg_inv_key: "reg_inv s \<Longrightarrow> links s c = Some l \<Longrightarrow> ChanID l = c"
  by (simp add: reg_inv_def)

lemma reg_inv_indexed:
  "reg_inv s \<Longrightarrow> links s c = Some l \<Longrightarrow> \<exists>ls. linksIndex s (Peer l) = Some ls \<and> l \<in> set ls"
  by (simp add: reg_inv_def)

lemma reg_inv_entry:
  "reg_inv s \<Longrightarrow> linksIndex s h = Some ls \<Longrightarrow>
     ls \<noteq> [] \<and> distinct ls \<and> (\<forall>l\<in>set ls. Peer l = h \<and> links s (ChanID l) = Some l)"
  by (simp add: reg_inv_def)

lemma reg_invI:
  assumes "\<And>c l. links s c = Some l \<Longrightarrow> ChanID l = c"
    and "\<And>c l. links s c = Some l \<Longrightarrow> \<exists>ls. linksIndex s (Peer l) = Some ls \<and> l \<in> set ls"
    and "\<And>h ls. linksIndex s h = Some ls \<Longrightarrow> ls \<noteq> [] \<and> distinct ls"
    and "\<And>h ls l. linksIndex s h = Some ls \<Longrightarrow> l \<in> set ls \<Longrightarrow>
           Peer l = h \<and> links s (ChanID l) = Some l"
  shows "reg_inv s"
  unfolding reg_inv_def using assms by simp

lemma addLink_fail: "LinkStart ev link = Some e \<Longrightarrow> addLink ev s link = (s, Some e)"
  by (simp add: addLink_def)

lemma addLink_ok:
  "LinkStart ev link = None \<Longrightarrow>
   addLink ev s link =
     (s\<lparr>links := (links s)(ChanID link \<mapsto> link),
        linksIndex := (linksIndex s)(Peer link \<mapsto> slice_of (linksIndex s (Peer link)) @ [link])\<rparr>,
      None)"
  by (simp add: addLink_def Let_def)

lemma reg_inv_addLink:
  assumes inv: "reg_inv s" and fresh: "links s (ChanID link) = None"
  shows "reg_inv (fst (addLink ev s link))"
proof (cases "LinkStart ev link")
  case (Some e)
  with inv show ?thesis by (simp add: addLink_fail)
next
  case None
  define old where "old = slice_of (linksIndex s (Peer link))"
  define s' where "s' = fst (addLink ev s link)"
  have st: "links s' = (links s)(ChanID link \<mapsto> link)"
    "linksIndex s' = (linksIndex s)(Peer link \<mapsto> old @ [link])"
    using None by (simp_all add: addLink_ok old_def s'_def)
  have old: "distinct old \<and> (\<forall>l\<in>set old. Peer l = Peer link \<and> links s (ChanID l) = Some l)"
  proof (cases "linksIndex s (Peer link)")
    case None
    then show ?thesis by (simp add: old_def slice_of_def)
  next
    case (Some ls)
    from reg_inv_entry [OF inv Some] Some show ?thesis by (simp add: old_def slice_of_def)
  qed
  have notin: "link \<notin> set old" using old fresh by auto
  have "reg_inv s'"
  proof (rule reg_invI)
    fix c l assume a: "links s' c = Some l"
    show "ChanID l = c" using a reg_inv_key [OF inv, of c l] by (auto simp: st split: if_splits)
    show "\<exists>ls. linksIndex s' (Peer l) = Some ls \<and> l \<in> set ls"
    proof (cases "l = link")
      case True then show ?thesis by (simp add: st)
    next
      case False
      with a have "links s c = Some l" by (auto simp: st split: if_splits)
      from reg_inv_indexed [OF inv this]
      obtain ls where ls: "linksIndex s (Peer l) = Some ls" "l \<in> set ls" by auto
      show ?thesis
      proof (cases "Peer l = Peer link")
        case True
        with ls have "l \<in> set old" by (simp add: old_def slice_of_def)
        with True show ?thesis by (simp add: st)
      next
        case False with ls show ?thesis by (simp add: st)
      qed
    qed
  next
    fix h ls assume a: "linksIndex s' h = Some ls"
    show "ls \<noteq> [] \<and> distinct ls"
    proof (cases "h = Peer link")
      case True
      with a have "ls = old @ [link]" by (simp add: st)
      with old notin show ?thesis by simp
    next
      case False
      with a have "linksIndex s h = Some ls" by (simp add: st)
      from reg_inv_entry [OF inv this] show ?thesis by simp
    qed
  next
    fix h ls l assume a: "linksIndex s' h = Some ls" and l: "l \<in> set ls"
    show "Peer l = h \<and> links s' (ChanID l) = Some l"
    proof (cases "h = Peer link")
      case True
      with a have "ls = old @ [link]" by (simp add: st)
      with l old True fresh show ?thesis by (auto simp: st)
    next
      case False
      with a have "linksIndex s h = Some ls" by (simp add: st)
      from reg_inv_entry [OF inv this] l have "Peer l = h" "links s (ChanID l) = Some l"
        by simp_all
      with fresh show ?thesis by (auto simp: st)
    qed
  qed
  then show ?thesis by (simp add: s'_def)
qed

lemma removeLink_absent: "links s c = None \<Longrightarrow> removeLink s c = (s, Some ErrChannelLinkNotFound)"
  by (simp add: removeLink_def)

lemma first_index_distinct_key:
  assumes "l \<in> set ls" and "\<And>x. x \<in> set ls \<Longrightarrow> P x \<Longrightarrow> x = l" and "P l"
  shows "\<exists>i. first_index P ls = Some i \<and> i < length ls \<and> ls ! i = l"
proof (cases "first_index P ls")
  case None
  with assms show ?thesis by (simp add: first_index_None)
next
  case (Some i)
  from first_index_Some [OF Some] have i: "i < length ls" "P (ls ! i)" by simp_all
  from i(1) have "ls ! i \<in> set ls" by simp
  then have "ls ! i = l" using i(2) by (rule assms(2))
  with Some i(1) show ?thesis by simp
qed

lemma removeLink_present:
  assumes inv: "reg_inv s" and l: "links s c = Some link"
  shows "\<exists>ls i. linksIndex s (Peer link) = Some ls \<and> i < length ls \<and> ls ! i = link \<and>
     removeLink s c =
       (emit (LinkStop link)
         (s\<lparr>links := (links s)(c := None),
            linksIndex := (if swap_remove ls i = [] then (linksIndex s)(Peer link := None)
                           else (linksIndex s)(Peer link \<mapsto> swap_remove ls i))\<rparr>), None)"
proof -
  have c: "ChanID link = c" by (rule reg_inv_key [OF inv l])
  from reg_inv_indexed [OF inv l]
  obtain ls where ls: "linksIndex s (Peer link) = Some ls" "link \<in> set ls" by auto
  from reg_inv_entry [OF inv ls(1)]
  have e: "\<And>x. x \<in> set ls \<Longrightarrow> links s (ChanID x) = Some x" by simp
  have "\<exists>i. first_index (\<lambda>x. ChanID x = ChanID link) ls = Some i \<and> i < length ls \<and> ls ! i = link"
  proof (rule first_index_distinct_key [OF ls(2)])
    fix x assume x: "x \<in> set ls" "ChanID x = ChanID link"
    from e [OF x(1)] have "links s (ChanID x) = Some x" .
    then show "x = link" using x(2) l c by (metis option.inject)
  qed simp
  then obtain i where i: "first_index (\<lambda>x. ChanID x = ChanID link) ls = Some i"
    "i < length ls" "ls ! i = link" by auto
  have "removeLink s c =
       (emit (LinkStop link)
         (s\<lparr>links := (links s)(c := None),
            linksIndex := (if swap_remove ls i = [] then (linksIndex s)(Peer link := None)
                           else (linksIndex s)(Peer link \<mapsto> swap_remove ls i))\<rparr>), None)"
    using l c ls(1) i(1) by (simp add: removeLink_def Let_def slice_of_def)
  with ls(1) i(2,3) show ?thesis by blast
qed

lemma reg_inv_emit: "reg_inv (emit e s) = reg_inv s"
  by (simp add: reg_inv_def emit_def)

lemma reg_inv_removeLink:
  assumes inv: "reg_inv s"
  shows "reg_inv (fst (removeLink s c))"
proof (cases "links s c")
  case None
  with inv show ?thesis by (simp add: removeLink_absent)
next
  case (Some link)
  from removeLink_present [OF inv Some]
  obtain ls i where ls: "linksIndex s (Peer link) = Some ls" and i: "i < length ls" "ls ! i = link"
    and r: "removeLink s c =
       (emit (LinkStop link)
         (s\<lparr>links := (links s)(c := None),
            linksIndex := (if swap_remove ls i = [] then (linksIndex s)(Peer link := None)
                           else (linksIndex s)(Peer link \<mapsto> swap_remove ls i))\<rparr>), None)"
    by blast
  define ls' where "ls' = swap_remove ls i"
  define s' where "s' = s\<lparr>links := (links s)(c := None),
            linksIndex := (if ls' = [] then (linksIndex s)(Peer link := None)
                           else (linksIndex s)(Peer link \<mapsto> ls'))\<rparr>"
  have c: "ChanID link = c" by (rule reg_inv_key [OF inv Some])
  from reg_inv_entry [OF inv ls]
  have d: "distinct ls" and e: "\<And>x. x \<in> set ls \<Longrightarrow> Peer x = Peer link \<and> links s (ChanID x) = Some x"
    by simp_all
  have set': "set ls' = set ls - {link}" and d': "distinct ls'"
    using set_swap_remove [OF d i(1)] distinct_swap_remove [OF d i(1)] i(2)
    by (simp_all add: ls'_def)
  have st: "links s' = (links s)(c := None)"
    "linksIndex s' (Peer link) = (if ls' = [] then None else Some ls')"
    "\<And>h. h \<noteq> Peer link \<Longrightarrow> linksIndex s' h = linksIndex s h"
    by (simp_all add: s'_def)
  have "reg_inv s'"
  proof (rule reg_invI)
    fix k l assume a: "links s' k = Some l"
    then have k: "k \<noteq> c" "links s k = Some l" by (auto simp: st split: if_splits)
    show "ChanID l = k" by (rule reg_inv_key [OF inv k(2)])
    have ne: "l \<noteq> link" using k Some reg_inv_key [OF inv k(2)] c by auto
    from reg_inv_indexed [OF inv k(2)]
    obtain ms where ms: "linksIndex s (Peer l) = Some ms" "l \<in> set ms" by auto
    show "\<exists>ls. linksIndex s' (Peer l) = Some ls \<and> l \<in> set ls"
    proof (cases "Peer l = Peer link")
      case True
      with ms ls have "l \<in> set ls" by simp
      with ne have "l \<in> set ls'" by (simp add: set')
      then have "ls' \<noteq> []" by auto
      with True \<open>l \<in> set ls'\<close> show ?thesis by (simp add: st)
    next
      case False
      with ms show ?thesis by (simp add: st)
    qed
  next
    fix h ms assume a: "linksIndex s' h = Some ms"
    show "ms \<noteq> [] \<and> distinct ms"
    proof (cases "h = Peer link")
      case True
      with a d' show ?thesis by (auto simp: st split: if_splits)
    next
      case False
      with a have "linksIndex s h = Some ms" by (simp add: st)
      from reg_inv_entry [OF inv this] show ?thesis by simp
    qed
  next
    fix h ms l assume a: "linksIndex s' h = Some ms" and l: "l \<in> set ms"
    show "Peer l = h \<and> links s' (ChanID l) = Some l"
    proof (cases "h = Peer link")
      case True
      with a have "ms = ls'" by (auto simp: st split: if_splits)
      with l have m: "l \<in> set ls" "l \<noteq> link" by (simp_all add: set')
      from e [OF m(1)] have p: "Peer l = Peer link" "links s (ChanID l) = Some l" by simp_all
      have "ChanID l \<noteq> c" using p(2) Some m(2) by auto
      with p True show ?thesis by (simp add: st)
    next
      case False
      with a have b: "linksIndex s h = Some ms" by (simp add: st)
      from reg_inv_entry [OF inv b] l have p: "Peer l = h" "links s (ChanID l) = Some l"
        by simp_all
      have "l \<noteq> link" using p(1) False by auto
      then have "ChanID l \<noteq> c" using p(2) Some by auto
      with p show ?thesis by (simp add: st)
    qed
  qed
  moreover have "removeLink s c = (emit (LinkStop link) s', None)"
    unfolding s'_def ls'_def by (rule r)
  ultimately show ?thesis by (simp add: reg_inv_emit)
qed


lemma reg_inv_states_after:
  "reg_inv s \<Longrightarrow> fresh_adds ev s ops \<Longrightarrow> s' \<in> set (states_after ev s ops) \<Longrightarrow> reg_inv s'"
proof (induction ops arbitrary: s)
  case Nil
  then show ?case by simp
next
  case (Cons x xs)
  show ?case
  proof (cases x)
    case (OpAdd l)
    with Cons.prems have f: "links s (ChanID l) = None" "fresh_adds ev (fst (addLink ev s l)) xs"
      by simp_all
    have i: "reg_inv (fst (addLink ev s l))" by (rule reg_inv_addLink [OF Cons.prems(1) f(1)])
    from Cons.prems(3) OpAdd Cons.IH [OF i f(2)] i show ?thesis by auto
  next
    case (OpRemove c)
    with Cons.prems have f: "fresh_adds ev (fst (removeLink s c)) xs" by simp
    have i: "reg_inv (fst (removeLink s c))" by (rule reg_inv_removeLink [OF Cons.prems(1)])
    from Cons.prems(3) OpRemove Cons.IH [OF i f] i show ?thesis by auto
  qed
qed

lemma registry_inv_New: "registry_inv New"
  by (simp add: registry_inv_def New_def)

lemmas registry_unfold =
  addLink_def removeLink_def ev0_def New_def linkA_def linkB_def linkC_def linkA'_def
  slice_of_def swap_remove_def emit_def Let_def

text \<open>C2. From a consistent registry (the empty one of \<open>New\<close> is), after each step of
  every sequence of add-link and remove-link operations in which each added link starts
  and reports a channel id that no registered link has, the two maps are consistent:
  each entry of \<open>links\<close> is under its own channel id and exactly once in the list of its
  peer, each entry of a peer's list is the entry of \<open>links\<close> under its channel id, and no
  peer has an empty list.\<close>

theorem registry_consistent:
  assumes "registry_inv s" and "fresh_adds ev s ops"
  shows "\<forall>s'\<in>set (states_after ev s ops). registry_inv s'"
proof
  fix s' assume "s' \<in> set (states_after ev s ops)"
  from reg_inv_states_after [OF registry_inv_reg_inv [OF assms(1)] assms(2) this]
  show "registry_inv s'" by (rule reg_inv_registry_inv)
qed

theorem registry_consistent_witness:
  "registry_inv New \<and> fresh_adds ev0 New [OpAdd linkA, OpAdd linkB, OpAdd linkC, OpRemove 2, OpRemove 3] \<and>
   list_all registry_inv
     (states_after ev0 New [OpAdd linkA, OpAdd linkB, OpAdd linkC, OpRemove 2, OpRemove 3]) \<and>
   map (\<lambda>s. (links s 2, links s 3, linksIndex s 8))
     (states_after ev0 New [OpAdd linkA, OpAdd linkB, OpAdd linkC, OpRemove 2, OpRemove 3]) =
     [(None, None, None), (Some linkB, None, Some [linkB]),
      (Some linkB, Some linkC, Some [linkB, linkC]),
      (None, Some linkC, Some [linkC]), (None, None, None)]"
proof -
  have f: "fresh_adds ev0 New [OpAdd linkA, OpAdd linkB, OpAdd linkC, OpRemove 2, OpRemove 3]"
    by (simp add: registry_unfold)
  have m: "map (\<lambda>s. (links s 2, links s 3, linksIndex s 8))
     (states_after ev0 New [OpAdd linkA, OpAdd linkB, OpAdd linkC, OpRemove 2, OpRemove 3]) =
     [(None, None, None), (Some linkB, None, Some [linkB]),
      (Some linkB, Some linkC, Some [linkB, linkC]),
      (None, Some linkC, Some [linkC]), (None, None, None)]"
    by (simp add: registry_unfold)
  from registry_consistent [OF registry_inv_New f] registry_inv_New f m show ?thesis
    unfolding list_all_iff by blast
qed


lemma count_list_snoc_twice: "l \<in> set ls \<Longrightarrow> count_list (ls @ [l]) l \<noteq> 1"
  by (simp add: count_list_0_iff)

text \<open>C9. When \<open>addLink\<close> gets a link that starts and reports the channel id of a registered
  link \<open>old\<close>, the entry of \<open>links\<close> under that id becomes the new link, the list of the new
  link's peer gains the new link at its end, and \<open>old\<close> stays in the list of its peer: with
  the same peer that list holds both links for the one channel id. The registry is no
  longer consistent.\<close>

theorem addLink_duplicate_chanID:
  assumes inv: "registry_inv s" and old: "links s (ChanID new) = Some old"
    and start: "LinkStart ev new = None"
  shows "links (fst (addLink ev s new)) (ChanID new) = Some new \<and>
         linksIndex (fst (addLink ev s new)) (Peer new) =
           Some (slice_of (linksIndex s (Peer new)) @ [new]) \<and>
         (\<exists>ls'. linksIndex (fst (addLink ev s new)) (Peer old) = Some ls' \<and> old \<in> set ls') \<and>
         (Peer new = Peer old \<longrightarrow>
            (\<exists>ls. linksIndex s (Peer old) = Some ls \<and> old \<in> set ls \<and>
                  linksIndex (fst (addLink ev s new)) (Peer old) = Some (ls @ [new]))) \<and>
         \<not> registry_inv (fst (addLink ev s new))"
proof -
  define s' where "s' = fst (addLink ev s new)"
  have st: "links s' = (links s)(ChanID new \<mapsto> new)"
    "linksIndex s' = (linksIndex s)(Peer new \<mapsto> slice_of (linksIndex s (Peer new)) @ [new])"
    using start by (simp_all add: addLink_ok s'_def)
  have r: "reg_inv s" by (rule registry_inv_reg_inv [OF inv])
  have c: "ChanID old = ChanID new" by (rule reg_inv_key [OF r old])
  from reg_inv_indexed [OF r old]
  obtain ls where ls: "linksIndex s (Peer old) = Some ls" "old \<in> set ls" by auto
  have a: "links s' (ChanID new) = Some new" by (simp add: st)
  have b: "linksIndex s' (Peer new) = Some (slice_of (linksIndex s (Peer new)) @ [new])"
    by (simp add: st)
  have same: "linksIndex s' (Peer old) = Some (ls @ [new])" if "Peer new = Peer old"
    using that ls by (simp add: st slice_of_def)
  have d: "\<exists>ls'. linksIndex s' (Peer old) = Some ls' \<and> old \<in> set ls'"
  proof (cases "Peer new = Peer old")
    case True
    with same ls show ?thesis by simp
  next
    case False
    with ls show ?thesis by (simp add: st)
  qed
  have e: "\<not> registry_inv s'"
  proof
    assume i: "registry_inv s'"
    from d obtain ls' where ls': "linksIndex s' (Peer old) = Some ls'" "old \<in> set ls'" by auto
    from i ls' have k: "links s' (ChanID old) = Some old" and n: "count_list ls' old = 1"
      unfolding registry_inv_def by fast+
    from k c a have eq: "new = old" by simp
    with same ls' have "ls' = ls @ [old]" by simp
    with n count_list_snoc_twice [OF ls(2)] show False by simp
  qed
  from a b d e same ls show ?thesis unfolding s'_def by blast
qed

theorem addLink_duplicate_chanID_witness:
  "registry_inv (fst (addLink ev0 New linkA)) \<and>
   links (fst (addLink ev0 New linkA)) (ChanID linkA') = Some linkA \<and>
   LinkStart ev0 linkA' = None \<and>
   links (fst (addLink ev0 (fst (addLink ev0 New linkA)) linkA')) 1 = Some linkA' \<and>
   linksIndex (fst (addLink ev0 (fst (addLink ev0 New linkA)) linkA')) 7 = Some [linkA, linkA'] \<and>
   \<not> registry_inv (fst (addLink ev0 (fst (addLink ev0 New linkA)) linkA'))"
proof -
  have f: "fresh_adds ev0 New [OpAdd linkA]" by (simp add: registry_unfold)
  have i: "registry_inv (fst (addLink ev0 New linkA))"
    using reg_inv_registry_inv [OF reg_inv_states_after [OF registry_inv_reg_inv [OF registry_inv_New] f]]
    by simp
  have o: "links (fst (addLink ev0 New linkA)) (ChanID linkA') = Some linkA"
    by (simp add: registry_unfold)
  have st: "LinkStart ev0 linkA' = None" by (simp add: ev0_def)
  have v: "links (fst (addLink ev0 (fst (addLink ev0 New linkA)) linkA')) 1 = Some linkA'"
    "linksIndex (fst (addLink ev0 (fst (addLink ev0 New linkA)) linkA')) 7 = Some [linkA, linkA']"
    by (simp_all add: registry_unfold)
  from addLink_duplicate_chanID [OF i o st] i o st v show ?thesis by blast
qed


section \<open>What each operation leaves alone\<close>

lemma emit_fields [simp]:
  "circuits (emit e s) = circuits s" "links (emit e s) = links s"
  "linksIndex (emit e s) = linksIndex s" "pendingPayments (emit e s) = pendingPayments s"
  "quit (emit e s) = quit s" "running (emit e s) = running s"
  "started (emit e s) = started s" "shutdown (emit e s) = shutdown s"
  "trace (emit e s) = trace s @ [e]"
  by (simp_all add: emit_def)

lemma removeLink_frame [simp]:
  "circuits (fst (removeLink s c)) = circuits s"
  "pendingPayments (fst (removeLink s c)) = pendingPayments s"
  "quit (fst (removeLink s c)) = quit s" "running (fst (removeLink s c)) = running s"
  "started (fst (removeLink s c)) = started s" "shutdown (fst (removeLink s c)) = shutdown s"
  by (simp_all add: removeLink_def Let_def split: option.splits)

lemma addLink_frame [simp]:
  "circuits (fst (addLink ev s l)) = circuits s"
  "pendingPayments (fst (addLink ev s l)) = pendingPayments s"
  "quit (fst (addLink ev s l)) = quit s" "running (fst (addLink ev s l)) = running s"
  "started (fst (addLink ev s l)) = started s" "shutdown (fst (addLink ev s l)) = shutdown s"
  "trace (fst (addLink ev s l)) = trace s"
  by (simp_all add: addLink_def Let_def split: option.splits)

lemma removePendingPayment_frame [simp]:
  "circuits (fst (removePendingPayment s a h)) = circuits s"
  "links (fst (removePendingPayment s a h)) = links s"
  "linksIndex (fst (removePendingPayment s a h)) = linksIndex s"
  "quit (fst (removePendingPayment s a h)) = quit s"
  "running (fst (removePendingPayment s a h)) = running s"
  "started (fst (removePendingPayment s a h)) = started s"
  "shutdown (fst (removePendingPayment s a h)) = shutdown s"
  "trace (fst (removePendingPayment s a h)) = trace s"
  by (simp_all add: removePendingPayment_def Let_def split: option.splits)

lemma handleLocalDispatch_frame [simp]:
  "circuits (fst (handleLocalDispatch ev s p pkt)) = circuits s"
  "links (fst (handleLocalDispatch ev s p pkt)) = links s"
  "linksIndex (fst (handleLocalDispatch ev s p pkt)) = linksIndex s"
  "quit (fst (handleLocalDispatch ev s p pkt)) = quit s"
  "running (fst (handleLocalDispatch ev s p pkt)) = running s"
  "started (fst (handleLocalDispatch ev s p pkt)) = started s"
  "shutdown (fst (handleLocalDispatch ev s p pkt)) = shutdown s"
  by (simp_all add: handleLocalDispatch_def Let_def split: message.splits sum.splits option.splits)

lemma forwardAdd_frame [simp]:
  "links (fst (forwardAdd ev s pkt h a)) = links s"
  "linksIndex (fst (forwardAdd ev s pkt h a)) = linksIndex s"
  "pendingPayments (fst (forwardAdd ev s pkt h a)) = pendingPayments s"
  "quit (fst (forwardAdd ev s pkt h a)) = quit s"
  "running (fst (forwardAdd ev s pkt h a)) = running s"
  "started (fst (forwardAdd ev s pkt h a)) = started s"
  "shutdown (fst (forwardAdd ev s pkt h a)) = shutdown s"
  by (simp_all add: forwardAdd_def Let_def split: sum.splits option.splits prod.splits)

lemma forwardSettleFail_frame [simp]:
  "links (fst (forwardSettleFail s pkt)) = links s"
  "linksIndex (fst (forwardSettleFail s pkt)) = linksIndex s"
  "pendingPayments (fst (forwardSettleFail s pkt)) = pendingPayments s"
  "quit (fst (forwardSettleFail s pkt)) = quit s"
  "running (fst (forwardSettleFail s pkt)) = running s"
  "started (fst (forwardSettleFail s pkt)) = started s"
  "shutdown (fst (forwardSettleFail s pkt)) = shutdown s"
  by (simp_all add: forwardSettleFail_def getLink_def Let_def split: sum.splits option.splits prod.splits)

lemma handlePacketForward_frame [simp]:
  "links (fst (handlePacketForward ev s pkt)) = links s"
  "linksIndex (fst (handlePacketForward ev s pkt)) = linksIndex s"
  "pendingPayments (fst (handlePacketForward ev s pkt)) = pendingPayments s"
  "quit (fst (handlePacketForward ev s pkt)) = quit s"
  "running (fst (handlePacketForward ev s pkt)) = running s"
  "started (fst (handlePacketForward ev s pkt)) = started s"
  "shutdown (fst (handlePacketForward ev s pkt)) = shutdown s"
  by (simp_all add: handlePacketForward_def split: message.splits)

lemma handleChanelClose_frame [simp]:
  "circuits (handleChanelClose ev s t op) = circuits s"
  "links (handleChanelClose ev s t op) = links s"
  "linksIndex (handleChanelClose ev s t op) = linksIndex s"
  "pendingPayments (handleChanelClose ev s t op) = pendingPayments s"
  "quit (handleChanelClose ev s t op) = quit s"
  "running (handleChanelClose ev s t op) = running s"
  "started (handleChanelClose ev s t op) = started s"
  "shutdown (handleChanelClose ev s t op) = shutdown s"
  by (simp_all add: handleChanelClose_def Let_def split: option.splits)

lemma fold_removeLink_frame:
  "circuits (fold (\<lambda>k s'. case links s' k of None \<Rightarrow> s'
                      | Some link \<Rightarrow> fst (removeLink s' (ChanID link))) ks s) = circuits s \<and>
   pendingPayments (fold (\<lambda>k s'. case links s' k of None \<Rightarrow> s'
                      | Some link \<Rightarrow> fst (removeLink s' (ChanID link))) ks s) = pendingPayments s \<and>
   quit (fold (\<lambda>k s'. case links s' k of None \<Rightarrow> s'
                      | Some link \<Rightarrow> fst (removeLink s' (ChanID link))) ks s) = quit s \<and>
   started (fold (\<lambda>k s'. case links s' k of None \<Rightarrow> s'
                      | Some link \<Rightarrow> fst (removeLink s' (ChanID link))) ks s) = started s \<and>
   shutdown (fold (\<lambda>k s'. case links s' k of None \<Rightarrow> s'
                      | Some link \<Rightarrow> fst (removeLink s' (ChanID link))) ks s) = shutdown s"
  by (induction ks arbitrary: s) (simp_all split: option.splits)

lemma forwarderReturn_frame [simp]:
  "circuits (forwarderReturn ev s) = circuits s"
  "pendingPayments (forwarderReturn ev s) = pendingPayments s"
  "quit (forwarderReturn ev s) = quit s"
  "running (forwarderReturn ev s) = False"
  "started (forwarderReturn ev s) = started s"
  "shutdown (forwarderReturn ev s) = shutdown s"
  by (simp_all add: forwarderReturn_def removeAllLinks_def fold_removeLink_frame)

section \<open>The turns of the dispatch loop\<close>

lemma forwarderStep_wrong_type:
  "paymentKey pkt = None \<Longrightarrow>
   forwarderStep ev s (ForwardCmd pkt) =
     (forwarderReturn ev s, ReplyErr (Some ErrWrongTypeOfUpdate))"
  by (simp add: forwarderStep_def)






section \<open>The packet forward path\<close>

lemma pickLink_None: "pickLink ev ls a = None \<longleftrightarrow> (\<forall>l\<in>set ls. Bandwidth ev l < a)"
  by (auto simp: pickLink_def find_None_iff)

lemma forwardAdd_error_circuits:
  "forwardAdd ev s pkt h a = (s', Some e) \<Longrightarrow> circuits s' = circuits s"
  by (auto simp: forwardAdd_def circuits_add_def split: sum.splits option.splits)

lemmas example_unfold =
  ev0_def New_def sw3_def sw3c_def linkA_def linkB_def linkC_def addPkt_def settlePkt_def
  emit_def failBack_def newFailPacket_def

text \<open>C3. A forwarded Add whose source link is registered and that cannot be forwarded
  is answered in each case by a Fail packet for the source link, handed over on a task of
  its own, with the reason byte of the case, and by an error for the caller: no list of
  links for the destination hop gives \<open>UnknownDestination\<close>, no link of the list with
  enough bandwidth gives \<open>InsufficientCapacity\<close>, a rejected circuit insert gives
  \<open>UnknownError\<close>. Whenever the Add path returns an error the circuit map is what it
  was.\<close>

theorem forward_add_failure:
  assumes add: "pkt_htlc packet = UpdateAddHTLC h a"
    and src: "links s (pkt_src packet) = Some source"
  shows "(linksIndex s (pkt_dest packet) = None \<longrightarrow>
            handlePacketForward ev s packet =
              (emit (AsyncOffer source
                 (newFailPacket (pkt_src packet)
                    (UpdateFailHTLC 0 [codeByte ev UnknownDestination]) h 0)) s,
               Some (ErrFindLinks (pkt_dest packet)))) \<and>
         (\<forall>ls. linksIndex s (pkt_dest packet) = Some ls \<and> (\<forall>l\<in>set ls. Bandwidth ev l < a) \<longrightarrow>
            handlePacketForward ev s packet =
              (emit (AsyncOffer source
                 (newFailPacket (pkt_src packet)
                    (UpdateFailHTLC 0 [codeByte ev InsufficientCapacity]) h 0)) s,
               Some (ErrNoCapacity a))) \<and>
         (\<forall>ls d c. linksIndex s (pkt_dest packet) = Some ls \<and> pickLink ev ls a = Some d \<and>
                   circuits s h = Some c \<longrightarrow>
            handlePacketForward ev s packet =
              (emit (AsyncOffer source
                 (newFailPacket (pkt_src packet)
                    (UpdateFailHTLC 0 [codeByte ev UnknownError]) h 0)) s,
               Some (ErrAddCircuit (ErrDuplicateCircuit h)))) \<and>
         (\<forall>s' e. handlePacketForward ev s packet = (s', Some e) \<longrightarrow> circuits s' = circuits s)"
proof (intro conjI allI impI)
  assume "linksIndex s (pkt_dest packet) = None"
  with add src show "handlePacketForward ev s packet =
      (emit (AsyncOffer source
         (newFailPacket (pkt_src packet) (UpdateFailHTLC 0 [codeByte ev UnknownDestination]) h 0)) s,
       Some (ErrFindLinks (pkt_dest packet)))"
    by (simp add: handlePacketForward_def forwardAdd_def getLink_def getLinks_def failBack_def)
next
  fix ls assume "linksIndex s (pkt_dest packet) = Some ls \<and> (\<forall>l\<in>set ls. Bandwidth ev l < a)"
  then have "linksIndex s (pkt_dest packet) = Some ls" "pickLink ev ls a = None"
    by (simp_all add: pickLink_None)
  with add src show "handlePacketForward ev s packet =
      (emit (AsyncOffer source
         (newFailPacket (pkt_src packet) (UpdateFailHTLC 0 [codeByte ev InsufficientCapacity]) h 0)) s,
       Some (ErrNoCapacity a))"
    by (simp add: handlePacketForward_def forwardAdd_def getLink_def getLinks_def failBack_def)
next
  fix ls d c
  assume "linksIndex s (pkt_dest packet) = Some ls \<and> pickLink ev ls a = Some d \<and>
          circuits s h = Some c"
  with add src show "handlePacketForward ev s packet =
      (emit (AsyncOffer source
         (newFailPacket (pkt_src packet) (UpdateFailHTLC 0 [codeByte ev UnknownError]) h 0)) s,
       Some (ErrAddCircuit (ErrDuplicateCircuit h)))"
    by (simp add: handlePacketForward_def forwardAdd_def getLink_def getLinks_def failBack_def
        circuits_add_def newPaymentCircuit_def)
next
  fix s' e assume "handlePacketForward ev s packet = (s', Some e)"
  with add have "forwardAdd ev s packet h a = (s', Some e)"
    by (simp add: handlePacketForward_def)
  then show "circuits s' = circuits s" by (rule forwardAdd_error_circuits)
qed

theorem forward_add_failure_witness:
  "handlePacketForward ev0 sw3 (addPkt 9 50) =
     (emit (AsyncOffer linkA
        \<lparr>pkt_payHash = 170, pkt_dest = 0, pkt_src = 1, pkt_amount = 0,
         pkt_htlc = UpdateFailHTLC 0 [3]\<rparr>) sw3, Some (ErrFindLinks 9)) \<and>
   handlePacketForward ev0 sw3 (addPkt 8 500) =
     (emit (AsyncOffer linkA
        \<lparr>pkt_payHash = 170, pkt_dest = 0, pkt_src = 1, pkt_amount = 0,
         pkt_htlc = UpdateFailHTLC 0 [0]\<rparr>) sw3, Some (ErrNoCapacity 500)) \<and>
   handlePacketForward ev0 sw3c (addPkt 8 50) =
     (emit (AsyncOffer linkA
        \<lparr>pkt_payHash = 170, pkt_dest = 0, pkt_src = 1, pkt_amount = 0,
         pkt_htlc = UpdateFailHTLC 0 [6]\<rparr>) sw3c, Some (ErrAddCircuit (ErrDuplicateCircuit 170))) \<and>
   circuits (fst (handlePacketForward ev0 sw3c (addPkt 8 50))) = circuits sw3c"
proof -
  have a: "pkt_htlc (addPkt d x) = UpdateAddHTLC 170 x" for d x by (simp add: addPkt_def)
  have s: "links sw3 (pkt_src (addPkt d x)) = Some linkA"
    "links sw3c (pkt_src (addPkt d x)) = Some linkA" for d x
    by (simp_all add: example_unfold)
  have 1: "linksIndex sw3 (pkt_dest (addPkt 9 50)) = None" by (simp add: example_unfold)
  have 2: "linksIndex sw3 (pkt_dest (addPkt 8 500)) = Some [linkB, linkC] \<and>
           (\<forall>l\<in>set [linkB, linkC]. Bandwidth ev0 l < 500)"
    by (simp add: example_unfold)
  have 3: "linksIndex sw3c (pkt_dest (addPkt 8 50)) = Some [linkB, linkC] \<and>
           pickLink ev0 [linkB, linkC] 50 = Some linkC \<and>
           circuits sw3c 170 = Some \<lparr>Src = 1, Dest = 3, PaymentHash = 170\<rparr>"
    by (simp add: example_unfold pickLink_def)
  note t1 = forward_add_failure [OF a s(1), of 9 50 ev0]
  note t2 = forward_add_failure [OF a s(1), of 8 500 ev0]
  note t3 = forward_add_failure [OF a s(2), of 8 50 ev0]
  have r1: "handlePacketForward ev0 sw3 (addPkt 9 50) =
     (emit (AsyncOffer linkA
        (newFailPacket (pkt_src (addPkt 9 50)) (UpdateFailHTLC 0 [codeByte ev0 UnknownDestination]) 170 0))
        sw3, Some (ErrFindLinks (pkt_dest (addPkt 9 50))))"
    using t1 1 by blast
  have r2: "handlePacketForward ev0 sw3 (addPkt 8 500) =
     (emit (AsyncOffer linkA
        (newFailPacket (pkt_src (addPkt 8 500)) (UpdateFailHTLC 0 [codeByte ev0 InsufficientCapacity]) 170 0))
        sw3, Some (ErrNoCapacity 500))"
    using t2 2 by blast
  have r3: "handlePacketForward ev0 sw3c (addPkt 8 50) =
     (emit (AsyncOffer linkA
        (newFailPacket (pkt_src (addPkt 8 50)) (UpdateFailHTLC 0 [codeByte ev0 UnknownError]) 170 0))
        sw3c, Some (ErrAddCircuit (ErrDuplicateCircuit 170)))"
    using t3 3 by blast
  have r4: "circuits (fst (handlePacketForward ev0 sw3c (addPkt 8 50))) = circuits sw3c"
    using t3 r3 by simp
  have p: "newFailPacket (pkt_src (addPkt d x)) m 170 0 =
      \<lparr>pkt_payHash = 170, pkt_dest = 0, pkt_src = 1, pkt_amount = 0, pkt_htlc = m\<rparr>" for d x m
    by (simp add: newFailPacket_def addPkt_def)
  have b: "codeByte ev0 UnknownDestination = 3" "codeByte ev0 InsufficientCapacity = 0"
    "codeByte ev0 UnknownError = 6" by (simp_all add: ev0_def)
  have d: "pkt_dest (addPkt 9 50) = 9" by (simp add: addPkt_def)
  from r1 r2 r3 r4 show ?thesis unfolding p b d by blast
qed









section \<open>The life of a circuit\<close>










section \<open>Local payments\<close>

lemma handleLocalDispatch_settle:
  "pkt_htlc pkt = UpdateFufillHTLC p \<Longrightarrow>
   handleLocalDispatch ev s payment pkt =
     (fst (removePendingPayment
             (emit (SlotPreimage (pp_id payment) p) (emit (SlotErr (pp_id payment) None) s))
             (pp_amount payment) (pp_paymentHash payment)), None)"
  by (simp add: handleLocalDispatch_def Let_def)

lemma handleLocalDispatch_fail:
  "pkt_htlc pkt = UpdateFailHTLC i r \<Longrightarrow>
   handleLocalDispatch ev s payment pkt =
     (fst (removePendingPayment
             (emit (SlotPreimage (pp_id payment) zeroPreimage)
                (emit (SlotErr (pp_id payment)
                   (Some (case ToFailCode ev r of
                            Inl e \<Rightarrow> ErrDecodeFailCode i e
                          | Inr code \<Rightarrow> ErrFailCode code))) s))
             (pp_amount payment) (pp_paymentHash payment)), None)"
  by (simp add: handleLocalDispatch_def Let_def)

lemma errChan_simps [simp]:
  "errChan pid [] = []"
  "errChan pid (xs @ ys) = errChan pid xs @ errChan pid ys"
  "errChan pid (SlotErr q v # xs) = (if q = pid then v # errChan pid xs else errChan pid xs)"
  "errChan pid (SlotPreimage q w # xs) = errChan pid xs"
  "errChan pid (Offer l pkt # xs) = errChan pid xs"
  "errChan pid (AsyncOffer l pkt # xs) = errChan pid xs"
  "errChan pid (LinkStop l # xs) = errChan pid xs"
  "errChan pid (QuitClosed # xs) = errChan pid xs"
  by (simp_all add: errChan_def)

lemma preimageChan_simps [simp]:
  "preimageChan pid [] = []"
  "preimageChan pid (xs @ ys) = preimageChan pid xs @ preimageChan pid ys"
  "preimageChan pid (SlotPreimage q w # xs) =
     (if q = pid then w # preimageChan pid xs else preimageChan pid xs)"
  "preimageChan pid (SlotErr q v # xs) = preimageChan pid xs"
  "preimageChan pid (Offer l pkt # xs) = preimageChan pid xs"
  "preimageChan pid (AsyncOffer l pkt # xs) = preimageChan pid xs"
  "preimageChan pid (LinkStop l # xs) = preimageChan pid xs"
  "preimageChan pid (QuitClosed # xs) = preimageChan pid xs"
  by (simp_all add: preimageChan_def)

lemma awaitResult_blocked:
  "errChan pid (trace (others ev s (beforeErr sch))) = [] \<Longrightarrow>
   \<not> quit (others ev s (beforeErr sch)) \<Longrightarrow> awaitResult ev s sch pid = None"
  by (simp add: awaitResult_def recvOrQuit_def)

lemma awaitResult_received:
  "errChan pid (trace (others ev s (beforeErr sch))) = e # es \<Longrightarrow>
   preimageChan pid
     (trace (others ev (others ev s (beforeErr sch)) (beforePreimage sch))) = v # vs \<Longrightarrow>
   \<not> quit (others ev s (beforeErr sch)) \<Longrightarrow>
   \<not> quit (others ev (others ev s (beforeErr sch)) (beforePreimage sch)) \<Longrightarrow>
   awaitResult ev s sch pid =
     Some (others ev (others ev s (beforeErr sch)) (beforePreimage sch), v, e)"
  by (simp add: awaitResult_def recvOrQuit_def Let_def)

lemmas local_unfold =
  swp_def localSettle_def localFail_def idle_def newPayment_def zeroPreimage_def
  removePendingPayment_def swap_remove_def

text \<open>C5. Resolving a local payment writes the error slot, then the preimage slot, once
  each and nothing else: a Settle writes no error and then the preimage, a Fail writes
  the decoded failure (or the error that says it cannot be decoded) and then the zero
  preimage. \<open>SendHTLC\<close> waits in that order: with an empty error slot and no shutdown it
  stays blocked whatever the preimage slot holds, and once it has the error it takes the
  preimage and returns both.\<close>

theorem slot_resolution_order:
  "(pkt_htlc pkt = UpdateFufillHTLC p \<longrightarrow>
      trace (fst (handleLocalDispatch ev s payment pkt)) =
        trace s @ [SlotErr (pp_id payment) None, SlotPreimage (pp_id payment) p]) \<and>
   (pkt_htlc pkt = UpdateFailHTLC i r \<longrightarrow>
      trace (fst (handleLocalDispatch ev s payment pkt)) =
        trace s @ [SlotErr (pp_id payment)
                     (Some (case ToFailCode ev r of
                              Inl e \<Rightarrow> ErrDecodeFailCode i e
                            | Inr code \<Rightarrow> ErrFailCode code)),
                   SlotPreimage (pp_id payment) zeroPreimage]) \<and>
   (errChan pid (trace (others ev s (beforeErr sch))) = [] \<and>
    \<not> quit (others ev s (beforeErr sch)) \<longrightarrow>
      awaitResult ev s sch pid = None) \<and>
   (errChan pid (trace (others ev s (beforeErr sch))) = e # es \<and>
    preimageChan pid
      (trace (others ev (others ev s (beforeErr sch)) (beforePreimage sch))) = v # vs \<and>
    \<not> quit (others ev s (beforeErr sch)) \<and>
    \<not> quit (others ev (others ev s (beforeErr sch)) (beforePreimage sch)) \<longrightarrow>
      awaitResult ev s sch pid =
        Some (others ev (others ev s (beforeErr sch)) (beforePreimage sch), v, e))"
proof (intro conjI impI)
  assume "pkt_htlc pkt = UpdateFufillHTLC p"
  then show "trace (fst (handleLocalDispatch ev s payment pkt)) =
      trace s @ [SlotErr (pp_id payment) None, SlotPreimage (pp_id payment) p]"
    by (simp add: handleLocalDispatch_settle)
next
  assume "pkt_htlc pkt = UpdateFailHTLC i r"
  then show "trace (fst (handleLocalDispatch ev s payment pkt)) =
      trace s @ [SlotErr (pp_id payment)
                   (Some (case ToFailCode ev r of
                            Inl e \<Rightarrow> ErrDecodeFailCode i e
                          | Inr code \<Rightarrow> ErrFailCode code)),
                 SlotPreimage (pp_id payment) zeroPreimage]"
    by (simp add: handleLocalDispatch_fail)
next
  assume "errChan pid (trace (others ev s (beforeErr sch))) = [] \<and>
          \<not> quit (others ev s (beforeErr sch))"
  then show "awaitResult ev s sch pid = None" by (simp add: awaitResult_blocked)
next
  assume "errChan pid (trace (others ev s (beforeErr sch))) = e # es \<and>
    preimageChan pid
      (trace (others ev (others ev s (beforeErr sch)) (beforePreimage sch))) = v # vs \<and>
    \<not> quit (others ev s (beforeErr sch)) \<and>
    \<not> quit (others ev (others ev s (beforeErr sch)) (beforePreimage sch))"
  then show "awaitResult ev s sch pid =
      Some (others ev (others ev s (beforeErr sch)) (beforePreimage sch), v, e)"
    by (simp add: awaitResult_received)
qed

theorem slot_resolution_order_witness:
  "trace (fst (handleLocalDispatch ev0 swp (newPayment 5 2 30) localSettle)) =
     [SlotErr 5 None, SlotPreimage 5 187] \<and>
   trace (fst (handleLocalDispatch ev0 swp (newPayment 5 2 30) localFail)) =
     [SlotErr 5 (Some (ErrFailCode UnknownDestination)), SlotPreimage 5 0] \<and>
   awaitResult ev0 (emit (SlotPreimage 5 187) swp) idle 5 = None \<and>
   awaitResult ev0 (fst (handleLocalDispatch ev0 swp (newPayment 5 2 30) localSettle)) idle 5 =
     Some (fst (handleLocalDispatch ev0 swp (newPayment 5 2 30) localSettle), 187, None)"
proof -
  have s: "pkt_htlc localSettle = UpdateFufillHTLC 187" by (simp add: localSettle_def)
  have f: "pkt_htlc localFail = UpdateFailHTLC 0 [3]" by (simp add: localFail_def)
  have t: "trace swp = []" "quit swp = False"
    by (simp_all add: swp_def sw3_def New_def)
  have i: "others ev0 x (beforeErr idle) = x" "others ev0 x (beforePreimage idle) = x" for x
    by (simp_all add: idle_def)
  have d: "ToFailCode ev0 [3] = Inr UnknownDestination" by (simp add: ev0_def)
  have id: "pp_id (newPayment 5 2 30) = 5" by (simp add: newPayment_def)
  note th = slot_resolution_order [where ev = ev0 and payment = "newPayment 5 2 30"]
  have 1: "trace (fst (handleLocalDispatch ev0 swp (newPayment 5 2 30) localSettle)) =
     [SlotErr 5 None, SlotPreimage 5 187]"
    using th [where pkt = localSettle and p = 187 and s = swp] s t id by simp
  have 2: "trace (fst (handleLocalDispatch ev0 swp (newPayment 5 2 30) localFail)) =
     [SlotErr 5 (Some (ErrFailCode UnknownDestination)), SlotPreimage 5 0]"
    using th [where pkt = localFail and s = swp and i = 0 and r = "[3]"] f t id d
    by (simp add: zeroPreimage_def)
  have 3: "awaitResult ev0 (emit (SlotPreimage 5 187) swp) idle 5 = None"
    using th [where pid = 5 and s = "emit (SlotPreimage 5 187) swp" and sch = idle] t i by simp
  have 4: "awaitResult ev0 (fst (handleLocalDispatch ev0 swp (newPayment 5 2 30) localSettle)) idle 5 =
     Some (fst (handleLocalDispatch ev0 swp (newPayment 5 2 30) localSettle), 187, None)"
    using th [where pid = 5 and sch = idle and e = None and es = "[]" and v = 187 and vs = "[]"
        and s = "fst (handleLocalDispatch ev0 swp (newPayment 5 2 30) localSettle)"] 1 t i
    by simp
  from 1 2 3 4 show ?thesis by blast
qed


section \<open>SendHTLC\<close>





lemma newPayment_fields [simp]:
  "pp_paymentHash (newPayment pid h a) = h" "pp_amount (newPayment pid h a) = a"
  "pp_id (newPayment pid h a) = pid"
  by (simp_all add: newPayment_def)

lemma slice_of_simps [simp]: "slice_of None = []" "slice_of (Some xs) = xs"
  by (simp_all add: slice_of_def)

lemma insertPayment_fields [simp]:
  "pendingPayments (insertPayment s (newPayment pid h a)) =
     (pendingPayments s)(h \<mapsto> slice_of (pendingPayments s h) @ [newPayment pid h a])"
  "links (insertPayment s p) = links s" "linksIndex (insertPayment s p) = linksIndex s"
  "circuits (insertPayment s p) = circuits s" "trace (insertPayment s p) = trace s"
  "quit (insertPayment s p) = quit s" "running (insertPayment s p) = running s"
  "started (insertPayment s p) = started s" "shutdown (insertPayment s p) = shutdown s"
  by (simp_all add: insertPayment_def newPayment_def)







lemma initPacket_fields [simp]:
  "pkt_htlc (newInitPacket hop (UpdateAddHTLC h a)) = UpdateAddHTLC h a"
  "pkt_dest (newInitPacket hop m) = hop"
  "paymentKey (newInitPacket hop (UpdateAddHTLC h a)) = Some (h, a)"
  by (simp_all add: newInitPacket_def paymentKey_def)






lemma others_one:
  "running s \<Longrightarrow> others ev s [LoopServes cmd] = fst (forwarderStep ev s cmd)"
  by simp











section \<open>Start, Stop and the stopped switch\<close>

lemma removeLink_chans [simp]:
  "errChan pid (trace (fst (removeLink s c))) = errChan pid (trace s)"
  "preimageChan pid (trace (fst (removeLink s c))) = preimageChan pid (trace s)"
  by (simp_all add: removeLink_def Let_def split: option.splits)

lemma fold_removeLink_chans:
  "errChan pid (trace (fold (\<lambda>k s'. case links s' k of None \<Rightarrow> s'
                      | Some link \<Rightarrow> fst (removeLink s' (ChanID link))) ks s)) =
     errChan pid (trace s) \<and>
   preimageChan pid (trace (fold (\<lambda>k s'. case links s' k of None \<Rightarrow> s'
                      | Some link \<Rightarrow> fst (removeLink s' (ChanID link))) ks s)) =
     preimageChan pid (trace s)"
  by (induction ks arbitrary: s) (simp_all split: option.splits)

lemma forwarderReturn_chans [simp]:
  "errChan pid (trace (forwarderReturn ev s)) = errChan pid (trace s)"
  "preimageChan pid (trace (forwarderReturn ev s)) = preimageChan pid (trace s)"
  by (simp_all add: forwarderReturn_def removeAllLinks_def fold_removeLink_chans)



















section \<open>The loop and a message of another type\<close>

lemma htlcForwarder_stops:
  "running s \<Longrightarrow> \<not> running (fst (forwarderStep ev s cmd)) \<Longrightarrow>
   htlcForwarder ev s (cmd # rest) =
     (fst (forwarderStep ev s cmd), [snd (forwarderStep ev s cmd)], rest)"
  by (cases rest) (simp_all add: split_beta)

text \<open>C7. On a forward command whose packet carries a message that is neither Add, Settle
  nor Fail, the loop writes the error to the reply channel and then returns, although
  \<open>quit\<close> is not closed: the command behind it is never served, and a caller of
  \<open>AddLink\<close> stays blocked.\<close>

theorem htlcForwarder_wrong_type_returns:
  "running sw3 \<and> \<not> quit sw3 \<and>
   snd (forwarderStep ev0 sw3 (ForwardCmd otherPkt)) = ReplyErr (Some ErrWrongTypeOfUpdate) \<and>
   \<not> running (fst (forwarderStep ev0 sw3 (ForwardCmd otherPkt))) \<and>
   \<not> quit (fst (forwarderStep ev0 sw3 (ForwardCmd otherPkt))) \<and>
   snd (htlcForwarder ev0 sw3 [ForwardCmd otherPkt, AddLinkCmd linkA']) =
     ([ReplyErr (Some ErrWrongTypeOfUpdate)], [AddLinkCmd linkA']) \<and>
   AddLink ev0 (fst (forwarderStep ev0 sw3 (ForwardCmd otherPkt))) pick linkA' = None"
proof -
  have k: "paymentKey otherPkt = None" by (simp add: paymentKey_def otherPkt_def)
  have r: "running sw3" "\<not> quit sw3" by (simp_all add: sw3_def New_def)
  note st = forwarderStep_wrong_type [OF k, of ev0 sw3]
  have nr: "\<not> running (fst (forwarderStep ev0 sw3 (ForwardCmd otherPkt)))"
    and nq: "\<not> quit (fst (forwarderStep ev0 sw3 (ForwardCmd otherPkt)))"
    using r by (simp_all add: st)
  have h: "htlcForwarder ev0 sw3 [ForwardCmd otherPkt, AddLinkCmd linkA'] =
     (fst (forwarderStep ev0 sw3 (ForwardCmd otherPkt)),
      [snd (forwarderStep ev0 sw3 (ForwardCmd otherPkt))], [AddLinkCmd linkA'])"
    by (rule htlcForwarder_stops [OF r(1) nr])
  have b: "AddLink ev0 (fst (forwarderStep ev0 sw3 (ForwardCmd otherPkt))) pick linkA' = None"
    using nr nq by (simp add: AddLink_def submit_def)
  from r nr nq h b show ?thesis by (simp add: st)
qed


end
